theory Spec2Isabelle
  imports Main
begin

section \<open>Data model of mozci.py\<close>

text \<open>
  The definitions keep the names of mozci.py. The private functions lose their leading
  underscore, and the variables \<open>times\<close> and \<open>rev\<close> are written \<open>n_times\<close> and
  \<open>rv\<close>, since HOL has constants of these names. Log messages are left out, except
  where evaluating their arguments can raise.
\<close>

type_synonym builder = string
type_synonym revision = string
type_synonym repo = string
type_synonym url = string

text \<open>
  Modelled from the spec: the status constants PENDING, RUNNING, SUCCESS, WARNING, UNKNOWN,
  COALESCED, FAILURE, EXCEPTION and RETRY are imported from mozci.query_jobs, which is not
  part of the sources at hand. The data model of the specification lists exactly these nine
  statuses for a job, so they are the constructors of one datatype.
\<close>

datatype status =
  PENDING | RUNNING | SUCCESS | WARNING | UNKNOWN | COALESCED | FAILURE | EXCEPTION | RETRY

text \<open>
  The exceptions the module can raise: a failed \<open>assert\<close>, the exception of the buildjson
  data source that the resolver catches, the plain \<open>Exception\<close> of the module's own
  \<open>raise\<close> statements, a missing dictionary key, an index out of range, the \<open>exit(-1)\<close>
  of \<open>trigger_job\<close>, the error of a function body that is not Python, and any other
  exception a collaborator raises (a failed HTTP request, for one).
\<close>

datatype error =
  AssertionError | BuildjsonException | Exception | KeyError | IndexError
  | SystemExit int | SyntaxError | OtherError

text \<open>The two query sources of the module; \<open>QUERY_SOURCE\<close> holds one of them.\<close>

datatype query_source = BuildApi | TreeherderApi

text \<open>
  The status of a finished job as buildjson reports it: \<open>None\<close> for the Python value
  \<open>None\<close>, otherwise the dictionary, of which only the entry \<open>properties\<close> is read
  (\<open>None\<close> when the key is missing, otherwise the dictionary as an association list).
\<close>

type_synonym job_status = "(string \<times> string) list option option"

text \<open>The \<open>extra_properties\<close> argument: the value of its \<open>mozci_request\<close> entry.\<close>

datatype mozci_request = Mozci_request (request_type: string) (request_builders: "builder list")

text \<open>
  The collaborators of the module (mozci.platforms, mozci.sources, mozci.query_jobs and
  mozci.utils) are not part of the sources at hand; they are the fields of an environment.
  What the scheduling backend answers to a request is its status code, or \<open>None\<close>.
\<close>

record 'j env =
  is_downstream :: "builder \<Rightarrow> bool"
  determine_upstream_builder :: "builder \<Rightarrow> builder"
  list_builders :: "builder list"
  query_repositories :: "bool \<Rightarrow> repo list"
  query_repo_url :: "repo \<Rightarrow> url"
  valid_revision :: "url \<Rightarrow> revision \<Rightarrow> bool"
  query_revisions_range_from_revision_before_and_after ::
    "url \<Rightarrow> revision \<Rightarrow> int \<Rightarrow> int \<Rightarrow> revision list"
  get_matching_jobs :: "query_source \<Rightarrow> repo \<Rightarrow> revision \<Rightarrow> builder \<Rightarrow> 'j list"
  get_job_status :: "query_source \<Rightarrow> 'j \<Rightarrow> error + status"
  get_buildapi_request_id :: "query_source \<Rightarrow> repo \<Rightarrow> 'j \<Rightarrow> nat"
  query_job_data :: "'j \<Rightarrow> error + job_status"
  all_urls_reachable :: "url list \<Rightarrow> bool"
  trigger_arbitrary_job ::
    "repo \<Rightarrow> builder \<Rightarrow> revision \<Rightarrow> url list option \<Rightarrow> bool \<Rightarrow> mozci_request option
      \<Rightarrow> nat option"

text \<open>The requests sent to the scheduling backend and to the revision history.\<close>

datatype call =
  Trigger_arbitrary_job repo builder revision "url list option" bool "mozci_request option"
  | Make_retrigger_request repo nat int bool
  | Query_revisions_before_and_after url revision int int

text \<open>
  The mutable globals of the module, \<open>SCHEDULING_MANAGER\<close> and \<open>QUERY_SOURCE\<close>,
  together with the requests sent so far.
\<close>

record session =
  sch_mgr :: "revision \<rightharpoonup> builder list"
  query_src :: query_source
  calls :: "call list"

definition initial_session :: session where
  "initial_session = \<lparr>sch_mgr = Map.empty, query_src = BuildApi, calls = []\<rparr>"

section \<open>The job status aggregator\<close>

text \<open>
  The argument of \<open>_status_summary\<close> is any Python value; the function asserts that it is
  a list.
\<close>

datatype 'j py_jobs = Job_list "'j list" | Not_a_list

text \<open>
  The callers unpack the result of \<open>_status_summary\<close> into five numbers, in the order
  successful, pending, running, coalesced, failed.
\<close>

type_synonym summary = "nat \<times> nat \<times> nat \<times> nat \<times> nat"

text \<open>
  The body of \<open>_status_summary\<close> is not Python. After the assertion it reads
  \<open>status_summary = {successful = 0, pending = 0, running = 0, coalesced = 0, failed = 0}\<close>,
  which is neither a dictionary nor a set display, so the five counters are never bound;
  the loop over the jobs then increments these unbound names, and the function returns the
  name \<open>status_summary\<close> and not five numbers. The interpreter rejects the body with a
  SyntaxError, and no call of the function returns, whatever its argument: not for a list
  of jobs, not for the empty list, and not for a value that the assertion would refuse.
  Every other function of the module is taken as it is written.
\<close>

definition status_summary :: "'j env \<Rightarrow> query_source \<Rightarrow> 'j py_jobs \<Rightarrow> error + summary" where
  "status_summary E qs jobs = Inl SyntaxError"

section \<open>Query and validation functions\<close>

text \<open>Python's \<open>needle in haystack\<close> on strings.\<close>

fun py_in :: "string \<Rightarrow> string \<Rightarrow> bool" where
  "py_in needle [] = (needle = [])"
| "py_in needle (c # cs) = (take (length needle) (c # cs) = needle \<or> py_in needle cs)"

text \<open>
  The test of \<open>query_repo_name_from_buildername\<close>: the repository name, between two
  spaces, two underscores or two dashes, occurs in the builder name.
\<close>

definition repo_in_buildername :: "repo \<Rightarrow> builder \<Rightarrow> bool" where
  "repo_in_buildername repo_name buildername =
    list_ex (\<lambda>d. py_in (d # repo_name @ [d]) buildername) [CHR '' '', CHR ''_'', CHR ''-'']"

text \<open>The loop of \<open>query_repo_name_from_buildername\<close>: the first repository that matches.\<close>

definition find_repo_name :: "'j env \<Rightarrow> builder \<Rightarrow> bool \<Rightarrow> repo option" where
  "find_repo_name E buildername clobber =
    find (\<lambda>repo_name. repo_in_buildername repo_name buildername) (query_repositories E clobber)"

text \<open>The call with \<open>clobber=True\<close>, which does not recurse.\<close>

definition query_repo_name_from_buildername_clobber :: "'j env \<Rightarrow> builder \<Rightarrow> error + repo" where
  "query_repo_name_from_buildername_clobber E buildername =
    (case find_repo_name E buildername True of
       None \<Rightarrow> Inl Exception
     | Some ret_val \<Rightarrow> Inr ret_val)"

text \<open>
  The call with \<open>clobber=False\<close>, the only one the module makes from outside. When no
  repository matches, the function calls itself with \<open>clobber=True\<close>, drops the result
  and raises.
\<close>

definition query_repo_name_from_buildername :: "'j env \<Rightarrow> builder \<Rightarrow> error + repo" where
  "query_repo_name_from_buildername E buildername =
    (case find_repo_name E buildername False of
       Some ret_val \<Rightarrow> Inr ret_val
     | None \<Rightarrow>
        (case query_repo_name_from_buildername_clobber E buildername of
           Inl e \<Rightarrow> Inl e
         | Inr _ \<Rightarrow> Inl Exception))"

definition query_repo_url_from_buildername :: "'j env \<Rightarrow> builder \<Rightarrow> error + url" where
  "query_repo_url_from_buildername E buildername =
    (case query_repo_name_from_buildername E buildername of
       Inl e \<Rightarrow> Inl e
     | Inr repo_name \<Rightarrow> Inr (query_repo_url E repo_name))"

definition query_builders :: "'j env \<Rightarrow> builder list" where
  "query_builders E = list_builders E"

text \<open>\<open>valid_builder\<close> also writes the file builders.txt, which nothing here reads.\<close>

definition valid_builder :: "'j env \<Rightarrow> builder \<Rightarrow> bool" where
  "valid_builder E buildername = (buildername \<in> set (query_builders E))"

definition set_query_source :: "string \<Rightarrow> session \<Rightarrow> session" where
  "set_query_source source S =
    S\<lparr>query_src := (if source = ''treeherder'' then TreeherderApi else BuildApi)\<rparr>"

section \<open>The session ledger\<close>

definition unique_build_request :: "'j env \<Rightarrow> builder \<Rightarrow> revision \<Rightarrow> session \<Rightarrow> bool" where
  "unique_build_request E buildername revision S =
    (if is_downstream E buildername then True
     else (case sch_mgr S revision of
             None \<Rightarrow> True
           | Some builders \<Rightarrow> if buildername \<in> set builders then False else True))"

section \<open>The trigger objective resolver\<close>

text \<open>
  \<open>_status_info\<close> reads the first request of the job and asks buildjson for its data;
  every exception of these steps is an error of \<open>query_job_data\<close>.
\<close>

definition status_info :: "'j env \<Rightarrow> 'j \<Rightarrow> error + job_status" where
  "status_info E job_schedule_info = query_job_data E job_schedule_info"

definition find_files :: "'j env \<Rightarrow> 'j \<Rightarrow> error + url list" where
  "find_files E job_schedule_info =
    (case status_info E job_schedule_info of
       Inl e \<Rightarrow> Inl e
     | Inr None \<Rightarrow> Inl AssertionError
     | Inr (Some None) \<Rightarrow> Inl Exception
     | Inr (Some (Some properties)) \<Rightarrow>
        if properties = [] then Inl Exception
        else (case map_of properties ''buildername'' of
                None \<Rightarrow> Inl KeyError
              | Some _ \<Rightarrow>
                 Inr ((case map_of properties ''packageUrl'' of
                         Some u \<Rightarrow> [u] | None \<Rightarrow> [])
                      @ (case map_of properties ''testPackagesUrl'' of
                           Some u \<Rightarrow> [u]
                         | None \<Rightarrow>
                            (case map_of properties ''testsUrl'' of
                               Some u \<Rightarrow> [u] | None \<Rightarrow> [])))))"

text \<open>
  The variables of the scan over the build jobs: \<open>working_job\<close>, \<open>running_job\<close>,
  \<open>failed_job\<close> and \<open>files\<close>. A job is a non-empty dictionary, so a variable that
  holds a job is true where the source tests it.
\<close>

type_synonym 'j candidates = "'j option \<times> 'j option \<times> 'j option \<times> url list option"

text \<open>
  The loop of \<open>_determine_trigger_objective\<close>. Only the exception of buildjson is caught;
  \<open>continue\<close> goes on with the next job and \<open>break\<close> returns.
\<close>

fun scan_build_jobs :: "'j env \<Rightarrow> 'j list \<Rightarrow> 'j candidates \<Rightarrow> error + 'j candidates" where
  "scan_build_jobs E [] cand = Inr cand"
| "scan_build_jobs E (job # jobs) (working_job, running_job, failed_job, files) =
    (case get_job_status E BuildApi job of
       Inl e \<Rightarrow>
        if e = BuildjsonException
        then scan_build_jobs E jobs (working_job, running_job, failed_job, files)
        else Inl e
     | Inr st \<Rightarrow>
        if st = RUNNING \<or> st = PENDING \<or> st = UNKNOWN
        then scan_build_jobs E jobs (working_job, Some job, failed_job, files)
        else (case find_files E job of
                Inl e \<Rightarrow> Inl e
              | Inr fs \<Rightarrow>
                 if fs \<noteq> [] \<and> all_urls_reachable E fs
                 then Inr (Some job, running_job, failed_job, Some fs)
                 else scan_build_jobs E jobs (working_job, running_job, Some job, None)))"

definition determine_trigger_objective ::
  "'j env \<Rightarrow> revision \<Rightarrow> builder \<Rightarrow> bool \<Rightarrow> session
    \<Rightarrow> error + (builder option \<times> url list option)" where
  "determine_trigger_objective E revision buildername trigger_build_if_missing S =
    (case query_repo_name_from_buildername E buildername of
       Inl e \<Rightarrow> Inl e
     | Inr repo_name \<Rightarrow>
        let build_buildername = determine_upstream_builder E buildername in
        if \<not> valid_builder E build_buildername then Inl AssertionError
        else if build_buildername = buildername then Inr (Some build_buildername, None)
        else
          (case scan_build_jobs E
                  (get_matching_jobs E BuildApi repo_name revision build_buildername)
                  (None, None, None, None) of
             Inl e \<Rightarrow> Inl e
           | Inr (working_job, running_job, failed_job, files) \<Rightarrow>
              if working_job \<noteq> None then Inr (Some buildername, files)
              else if running_job \<noteq> None then Inr (None, files)
              else if failed_job \<noteq> None then Inr (None, files)
              else if \<not> trigger_build_if_missing
                      \<or> \<not> unique_build_request E build_buildername revision S
                then Inr (None, files)
                else Inr (Some build_buildername, files)))"

section \<open>Triggering\<close>

definition trigger ::
  "'j env \<Rightarrow> builder \<Rightarrow> revision \<Rightarrow> url list option \<Rightarrow> bool \<Rightarrow> mozci_request option
    \<Rightarrow> session \<Rightarrow> (error + nat option) \<times> session" where
  "trigger E builder revision files dry_run extra_properties S =
    (let S1 = (if sch_mgr S revision = None
               then S\<lparr>sch_mgr := (sch_mgr S)(revision \<mapsto> [])\<rparr> else S);
         S2 = S1\<lparr>sch_mgr := (sch_mgr S1)(revision \<mapsto>
                 (case sch_mgr S1 revision of None \<Rightarrow> [] | Some bs \<Rightarrow> bs) @ [builder])\<rparr>
     in (case query_repo_name_from_buildername E builder of
           Inl e \<Rightarrow> (Inl e, S2)
         | Inr repo_name \<Rightarrow>
            (Inr (trigger_arbitrary_job E repo_name builder revision files dry_run
                    extra_properties),
             S2\<lparr>calls := calls S2 @
               [Trigger_arbitrary_job repo_name builder revision files dry_run
                  extra_properties]\<rparr>)))"

text \<open>The loop \<open>for _ in range(times)\<close> of \<open>trigger_job\<close>.\<close>

fun trigger_times ::
  "'j env \<Rightarrow> nat \<Rightarrow> builder \<Rightarrow> revision \<Rightarrow> url list option \<Rightarrow> bool \<Rightarrow> mozci_request option
    \<Rightarrow> nat list \<Rightarrow> session \<Rightarrow> (error + nat list) \<times> session" where
  "trigger_times E 0 builder revision files dry_run extra list_of_requests S =
    (Inr list_of_requests, S)"
| "trigger_times E (Suc n) builder revision files dry_run extra list_of_requests S =
    (case trigger E builder revision files dry_run extra S of
       (Inl e, S') \<Rightarrow> (Inl e, S')
     | (Inr req, S') \<Rightarrow>
        trigger_times E n builder revision files dry_run extra
          (case req of None \<Rightarrow> list_of_requests | Some r \<Rightarrow> list_of_requests @ [r]) S')"

text \<open>
  Python's truth value of \<open>files\<close>: a list that is not empty. The same test on
  \<open>builder_to_trigger\<close> fails for \<open>None\<close> and for the empty string. At its end
  \<open>trigger_job\<close> removes old buildjson files, which nothing here reads.
\<close>

definition truthy :: "url list option \<Rightarrow> bool" where
  "truthy files = (case files of None \<Rightarrow> False | Some fs \<Rightarrow> fs \<noteq> [])"

definition trigger_job ::
  "'j env \<Rightarrow> revision \<Rightarrow> builder \<Rightarrow> int \<Rightarrow> url list option \<Rightarrow> bool \<Rightarrow> mozci_request option
    \<Rightarrow> bool \<Rightarrow> session \<Rightarrow> (error + nat list) \<times> session" where
  "trigger_job E revision buildername n_times files dry_run extra_properties
      trigger_build_if_missing S =
    (case query_repo_name_from_buildername E buildername of
       Inl e \<Rightarrow> (Inl e, S)
     | Inr repo_name \<Rightarrow>
        let repo_url = query_repo_url E repo_name in
        if \<not> valid_revision E repo_url revision then (Inr [], S)
        else if \<not> valid_builder E buildername then (Inl (SystemExit (- 1)), S)
        else
          (case (if truthy files then Inr (Some buildername, files, n_times)
                 else (case determine_trigger_objective E revision buildername
                              trigger_build_if_missing S of
                         Inl e \<Rightarrow> Inl e
                       | Inr (builder_to_trigger, files') \<Rightarrow>
                          Inr (builder_to_trigger, files',
                               if builder_to_trigger \<noteq> Some buildername \<and> n_times \<noteq> 1
                               then 1 else n_times))) of
             Inl e \<Rightarrow> (Inl e, S)
           | Inr (builder_to_trigger, files, n_times) \<Rightarrow>
              (case builder_to_trigger of
                 None \<Rightarrow> (Inr [], S)
               | Some b \<Rightarrow>
                  if b = [] then (Inr [], S)
                  else if dry_run
                  then (case trigger E b revision files dry_run extra_properties S of
                          (Inl e, S') \<Rightarrow> (Inl e, S')
                        | (Inr _, S') \<Rightarrow> (Inr [], S'))
                  else trigger_times E (nat n_times) b revision files dry_run
                         extra_properties [] S)))"

section \<open>The trigger range scheduler\<close>

text \<open>One pass of the loop of \<open>trigger_range\<close>, for the revision \<open>rv\<close>.\<close>

definition trigger_range_revision ::
  "'j env \<Rightarrow> repo \<Rightarrow> url \<Rightarrow> builder \<Rightarrow> int \<Rightarrow> bool \<Rightarrow> url list option
    \<Rightarrow> mozci_request option \<Rightarrow> bool \<Rightarrow> revision \<Rightarrow> session \<Rightarrow> (error + unit) \<times> session" where
  "trigger_range_revision E repo_name repo_url buildername n_times dry_run files
      extra_properties trigger_build_if_missing rv S =
    (if \<not> valid_revision E repo_url rv then (Inr (), S)
     else
       let matching_jobs = get_matching_jobs E (query_src S) repo_name rv buildername in
       case status_summary E (query_src S) (Job_list matching_jobs) of
         Inl e \<Rightarrow> (Inl e, S)
       | Inr (successful_jobs, pending_jobs, running_jobs, _, failed_jobs) \<Rightarrow>
          let potential_jobs = int (pending_jobs + running_jobs + successful_jobs + failed_jobs)
          in if potential_jobs \<ge> n_times then (Inr (), S)
             else if length matching_jobs > 0 \<and> files = None
             then
               let request_id =
                     get_buildapi_request_id E (query_src S) repo_name (hd matching_jobs)
               in (Inr (), S\<lparr>calls := calls S @
                     [Make_retrigger_request repo_name request_id (n_times - potential_jobs)
                        dry_run]\<rparr>)
             else
               (case trigger_job E rv buildername (n_times - potential_jobs) files dry_run
                       extra_properties trigger_build_if_missing S of
                  (Inl e, S') \<Rightarrow> (Inl e, S')
                | (Inr list_of_requests, S') \<Rightarrow> (Inr (), S')))"

fun trigger_range_loop ::
  "'j env \<Rightarrow> repo \<Rightarrow> url \<Rightarrow> builder \<Rightarrow> int \<Rightarrow> bool \<Rightarrow> url list option
    \<Rightarrow> mozci_request option \<Rightarrow> bool \<Rightarrow> revision list \<Rightarrow> session \<Rightarrow> (error + unit) \<times> session"
  where
  "trigger_range_loop E repo_name repo_url buildername n_times dry_run files extra tbim [] S =
    (Inr (), S)"
| "trigger_range_loop E repo_name repo_url buildername n_times dry_run files extra tbim
      (rv # revisions) S =
    (case trigger_range_revision E repo_name repo_url buildername n_times dry_run files extra
            tbim rv S of
       (Inl e, S') \<Rightarrow> (Inl e, S')
     | (Inr _, S') \<Rightarrow>
        trigger_range_loop E repo_name repo_url buildername n_times dry_run files extra tbim
          revisions S')"

definition trigger_range ::
  "'j env \<Rightarrow> builder \<Rightarrow> revision list \<Rightarrow> int \<Rightarrow> bool \<Rightarrow> url list option
    \<Rightarrow> mozci_request option \<Rightarrow> bool \<Rightarrow> session \<Rightarrow> (error + unit) \<times> session" where
  "trigger_range E buildername revisions n_times dry_run files extra_properties
      trigger_build_if_missing S =
    (case query_repo_name_from_buildername E buildername of
       Inl e \<Rightarrow> (Inl e, S)
     | Inr repo_name \<Rightarrow>
        trigger_range_loop E repo_name (query_repo_url E repo_name) buildername n_times dry_run
          files extra_properties trigger_build_if_missing revisions S)"

section \<open>The backfill window finder\<close>

text \<open>
  The loop of \<open>_filter_backfill_revlist\<close>; \<open>break\<close> returns the revisions collected
  so far.
\<close>

fun filter_backfill_loop ::
  "'j env \<Rightarrow> query_source \<Rightarrow> repo \<Rightarrow> builder \<Rightarrow> bool \<Rightarrow> revision list \<Rightarrow> revision list
    \<Rightarrow> error + revision list" where
  "filter_backfill_loop E qs repo_name buildername only_successful [] new_revisions_list =
    Inr new_revisions_list"
| "filter_backfill_loop E qs repo_name buildername only_successful (rv # revisions)
      new_revisions_list =
    (let matching_jobs = get_matching_jobs E qs repo_name rv buildername in
     case status_summary E qs (Job_list matching_jobs) of
       Inl e \<Rightarrow> Inl e
     | Inr (successful, pending, running, coalesced, failed) \<Rightarrow>
        if \<not> only_successful
        then
          if matching_jobs \<noteq> []
             \<and> (successful \<noteq> 0 \<or> pending \<noteq> 0 \<or> running \<noteq> 0 \<or> failed \<noteq> 0)
          then Inr new_revisions_list
          else filter_backfill_loop E qs repo_name buildername only_successful revisions
                 (new_revisions_list @ [rv])
        else
          if successful > 0 then Inr new_revisions_list
          else filter_backfill_loop E qs repo_name buildername only_successful revisions
                 (new_revisions_list @ [rv]))"

text \<open>
  Before the loop the function logs \<open>revisions[0]\<close> and \<open>revisions[-1]\<close>, which raises
  IndexError on an empty list.
\<close>

definition filter_backfill_revlist ::
  "'j env \<Rightarrow> builder \<Rightarrow> revision list \<Rightarrow> bool \<Rightarrow> session \<Rightarrow> error + revision list" where
  "filter_backfill_revlist E buildername revisions only_successful S =
    (case query_repo_name_from_buildername E buildername of
       Inl e \<Rightarrow> Inl e
     | Inr repo_name \<Rightarrow>
        if revisions = [] then Inl IndexError
        else filter_backfill_loop E (query_src S) repo_name buildername only_successful
               revisions [])"

definition manual_backfill ::
  "'j env \<Rightarrow> revision \<Rightarrow> builder \<Rightarrow> int \<Rightarrow> bool \<Rightarrow> session \<Rightarrow> (error + unit) \<times> session" where
  "manual_backfill E revision buildername max_revisions dry_run S =
    (case query_repo_url_from_buildername E buildername of
       Inl e \<Rightarrow> (Inl e, S)
     | Inr repo_url \<Rightarrow>
        let S1 = set_query_source ''treeherder'' S;
            S2 = S1\<lparr>calls := calls S1 @
                   [Query_revisions_before_and_after repo_url revision max_revisions (- 1)]\<rparr>;
            revlist = query_revisions_range_from_revision_before_and_after E repo_url revision
                        max_revisions (- 1)
        in (case filter_backfill_revlist E buildername revlist False S2 of
              Inl e \<Rightarrow> (Inl e, S2)
            | Inr filtered_revlist \<Rightarrow>
               trigger_range E buildername filtered_revlist 1 dry_run None
                 (Some (Mozci_request ''manual_backfill'' [buildername])) True S2))"

definition find_backfill_revlist ::
  "'j env \<Rightarrow> url \<Rightarrow> revision \<Rightarrow> int \<Rightarrow> builder \<Rightarrow> session
    \<Rightarrow> (error + revision list) \<times> session" where
  "find_backfill_revlist E repo_url revision max_revisions buildername S =
    (let S1 = S\<lparr>calls := calls S @
                [Query_revisions_before_and_after repo_url revision (max_revisions - 1) 0]\<rparr>;
         revlist = query_revisions_range_from_revision_before_and_after E repo_url revision
                     (max_revisions - 1) 0
     in (filter_backfill_revlist E buildername revlist True S1, S1))"

section \<open>Sessions\<close>

text \<open>
  A session is a sequence of calls of \<open>trigger_job\<close> and \<open>trigger_range\<close> on the
  globals of the module. The collaborators may answer differently at every call, so each
  call comes with its environment. A call that raises leaves the globals as they are at
  that moment.
\<close>

datatype invocation =
  Trigger_job revision builder int "url list option" bool "mozci_request option" bool
  | Trigger_range builder "revision list" int bool "url list option" "mozci_request option" bool

fun invoke :: "'j env \<Rightarrow> invocation \<Rightarrow> session \<Rightarrow> session" where
  "invoke E (Trigger_job revision buildername n_times files dry_run extra tbim) S =
    snd (trigger_job E revision buildername n_times files dry_run extra tbim S)"
| "invoke E (Trigger_range buildername revisions n_times dry_run files extra tbim) S =
    snd (trigger_range E buildername revisions n_times dry_run files extra tbim S)"

fun requested_builder :: "invocation \<Rightarrow> builder" where
  "requested_builder (Trigger_job revision buildername n_times files dry_run extra tbim) =
    buildername"
| "requested_builder (Trigger_range buildername revisions n_times dry_run files extra tbim) =
    buildername"

fun given_files :: "invocation \<Rightarrow> url list option" where
  "given_files (Trigger_job revision buildername n_times files dry_run extra tbim) = files"
| "given_files (Trigger_range buildername revisions n_times dry_run files extra tbim) = files"

fun run_session :: "('j env \<times> invocation) list \<Rightarrow> session \<Rightarrow> session" where
  "run_session [] S = S"
| "run_session ((E, i) # rest) S = run_session rest (invoke E i S)"

text \<open>The trigger requests sent for a builder on a revision.\<close>

fun is_trigger_of :: "revision \<Rightarrow> builder \<Rightarrow> call \<Rightarrow> bool" where
  "is_trigger_of rv b (Trigger_arbitrary_job repo_name builder revision files dry_run extra) =
    (builder = b \<and> revision = rv)"
| "is_trigger_of rv b (Make_retrigger_request repo_name request_id n dry_run) = False"
| "is_trigger_of rv b (Query_revisions_before_and_after repo_url revision before after) = False"

text \<open>The requests sent to the revision history.\<close>

fun is_history_request :: "call \<Rightarrow> bool" where
  "is_history_request (Trigger_arbitrary_job repo_name builder revision files dry_run extra) =
    False"
| "is_history_request (Make_retrigger_request repo_name request_id n dry_run) = False"
| "is_history_request (Query_revisions_before_and_after repo_url revision before after) = True"

definition history_requests :: "session \<Rightarrow> call list" where
  "history_requests S = filter is_history_request (calls S)"

definition trigger_calls :: "revision \<Rightarrow> builder \<Rightarrow> session \<Rightarrow> nat" where
  "trigger_calls rv b S = length (filter (is_trigger_of rv b) (calls S))"

text \<open>The builder is in the ledger entry of the revision.\<close>

definition recorded :: "revision \<Rightarrow> builder \<Rightarrow> session \<Rightarrow> bool" where
  "recorded rv b S = (case sch_mgr S rv of None \<Rightarrow> False | Some builders \<Rightarrow> b \<in> set builders)"

text \<open>
  No trigger request was sent for the builder on the revision, or one was sent and the
  ledger has recorded the builder.
\<close>

definition at_most_once :: "revision \<Rightarrow> builder \<Rightarrow> session \<Rightarrow> bool" where
  "at_most_once rv b S =
    (trigger_calls rv b S = 0 \<or> (trigger_calls rv b S = 1 \<and> recorded rv b S))"

section \<open>An example environment\<close>

text \<open>
  One repository, \<open>try\<close>, with a build builder and test builders that depend on it. The
  jobs are numbers; their statuses, the jobs of a revision and builder, the data of a job
  and the revision history are parameters. Files are reachable unless one of them is the
  URL \<open>gone\<close>. The backend answers 202, and nothing on a dry run.
\<close>

definition example_env ::
  "(nat \<Rightarrow> error + status) \<Rightarrow> (revision \<Rightarrow> builder \<Rightarrow> nat list) \<Rightarrow> (nat \<Rightarrow> error + job_status)
    \<Rightarrow> (int \<Rightarrow> int \<Rightarrow> revision list) \<Rightarrow> nat env" where
  "example_env status_of jobs_of data_of history =
    \<lparr>is_downstream = (\<lambda>b. b \<noteq> ''Linux try build''),
     determine_upstream_builder = (\<lambda>b. ''Linux try build''),
     list_builders = [''Linux try build'', ''Linux try test'', ''Linux try talos''],
     query_repositories = (\<lambda>clobber. [''try'']),
     query_repo_url = (\<lambda>repo_name. ''hg/'' @ repo_name),
     valid_revision = (\<lambda>repo_url revision. True),
     query_revisions_range_from_revision_before_and_after =
       (\<lambda>repo_url revision before after. history before after),
     get_matching_jobs = (\<lambda>qs repo_name revision buildername. jobs_of revision buildername),
     get_job_status = (\<lambda>qs job. status_of job),
     get_buildapi_request_id = (\<lambda>qs repo_name job. 100 + job),
     query_job_data = data_of,
     all_urls_reachable = (\<lambda>files. ''gone'' \<notin> set files),
     trigger_arbitrary_job =
       (\<lambda>repo_name builder revision files dry_run extra. if dry_run then None else Some 202)\<rparr>"

text \<open>Statuses by job number; the query source has no status for any other job.\<close>

definition statuses :: "status list \<Rightarrow> nat \<Rightarrow> error + status" where
  "statuses xs j = (if j < length xs then Inr (xs ! j) else Inl OtherError)"

text \<open>Job data by job number; buildjson fails for any other job.\<close>

definition job_data :: "job_status list \<Rightarrow> nat \<Rightarrow> error + job_status" where
  "job_data xs j = (if j < length xs then Inr (xs ! j) else Inl BuildjsonException)"

definition no_data :: "nat \<Rightarrow> error + job_status" where
  "no_data j = Inr None"

definition no_history :: "int \<Rightarrow> int \<Rightarrow> revision list" where
  "no_history before after = []"

text \<open>Answers of the query source by job number, errors included.\<close>

definition status_answers :: "(error + status) list \<Rightarrow> nat \<Rightarrow> error + status" where
  "status_answers xs j = (if j < length xs then xs ! j else Inl OtherError)"

text \<open>The given jobs for the build builder on every revision, none for any other builder.\<close>

definition build_jobs :: "nat list \<Rightarrow> revision \<Rightarrow> builder \<Rightarrow> nat list" where
  "build_jobs js revision buildername = (if buildername = ''Linux try build'' then js else [])"

text \<open>
  The data of a build with a package and a tests archive, of one whose package is not
  reachable, and of one that names no file.
\<close>

definition with_files :: job_status where
  "with_files = Some (Some [(''buildername'', ''Linux try build''), (''packageUrl'', ''pkg''),
     (''testsUrl'', ''tests'')])"

definition unreachable_files :: job_status where
  "unreachable_files =
    Some (Some [(''buildername'', ''Linux try build''), (''packageUrl'', ''gone'')])"

definition without_files :: job_status where
  "without_files = Some (Some [(''buildername'', ''Linux try build'')])"

text \<open>A revision history that answers every request with the same revisions.\<close>

definition fixed_history :: "revision list \<Rightarrow> int \<Rightarrow> int \<Rightarrow> revision list" where
  "fixed_history revisions before after = revisions"

section \<open>Evaluation of the example environment\<close>

lemma example_repo_name:
  "query_repo_name_from_buildername (example_env a b c d) ''Linux try build'' = Inr ''try''"
  "query_repo_name_from_buildername (example_env a b c d) ''Linux try test'' = Inr ''try''"
  "query_repo_name_from_buildername (example_env a b c d) ''Linux try talos'' = Inr ''try''"
  by (simp_all add: query_repo_name_from_buildername_def find_repo_name_def
      repo_in_buildername_def example_env_def)

lemma example_env_sel:
  "is_downstream (example_env a b c d) = (\<lambda>b. b \<noteq> ''Linux try build'')"
  "determine_upstream_builder (example_env a b c d) = (\<lambda>b. ''Linux try build'')"
  "list_builders (example_env a b c d) =
     [''Linux try build'', ''Linux try test'', ''Linux try talos'']"
  "query_repo_url (example_env a b c d) = (\<lambda>repo_name. ''hg/'' @ repo_name)"
  "valid_revision (example_env a b c d) = (\<lambda>repo_url revision. True)"
  "query_revisions_range_from_revision_before_and_after (example_env a b c d) =
     (\<lambda>repo_url revision before after. d before after)"
  "get_matching_jobs (example_env a b c d) =
     (\<lambda>qs repo_name revision buildername. b revision buildername)"
  "get_job_status (example_env a b c d) = (\<lambda>qs job. a job)"
  "get_buildapi_request_id (example_env a b c d) = (\<lambda>qs repo_name job. 100 + job)"
  "query_job_data (example_env a b c d) = c"
  "all_urls_reachable (example_env a b c d) = (\<lambda>files. ''gone'' \<notin> set files)"
  "trigger_arbitrary_job (example_env a b c d) =
     (\<lambda>repo_name builder revision files dry_run extra. if dry_run then None else Some 202)"
  by (simp_all add: example_env_def)

lemmas resolver_eval =
  determine_trigger_objective_def example_repo_name example_env_sel valid_builder_def
  query_builders_def build_jobs_def statuses_def job_data_def find_files_def status_info_def
  with_files_def

section \<open>Properties of the job status aggregator\<close>

text \<open>
  Claim C3. The function returns no summary. Whatever its argument, a list of jobs or a
  value that is not a list, a call ends in the error of the function's body: no job is
  put into a bucket, the callers get no five counts that could add up to the number of
  jobs, and a value that is not a list is not refused by the assertion but fails like
  every other argument.
\<close>

theorem status_summary_raises:
  "status_summary E qs (Job_list jobs) = Inl SyntaxError
   \<and> status_summary E qs Not_a_list = Inl SyntaxError"
  by (simp add: status_summary_def)

section \<open>Properties of the trigger range scheduler\<close>

lemma trigger_range_revision_session:
  "snd (trigger_range_revision E repo_name repo_url buildername n_times dry_run files extra
          tbim rv S) = S"
  by (simp add: trigger_range_revision_def status_summary_def)

lemma trigger_range_loop_session:
  "snd (trigger_range_loop E repo_name repo_url buildername n_times dry_run files extra tbim
          revisions S) = S"
proof (induction revisions)
  case Nil
  then show ?case by simp
next
  case (Cons rv revisions)
  obtain res S' where
    t: "trigger_range_revision E repo_name repo_url buildername n_times dry_run files extra
          tbim rv S = (res, S')"
    by (cases "trigger_range_revision E repo_name repo_url buildername n_times dry_run files
                 extra tbim rv S")
  have "S' = S"
    using trigger_range_revision_session
      [of E repo_name repo_url buildername n_times dry_run files extra tbim rv S] t
    by simp
  then show ?case using Cons.IH t by (cases res) auto
qed



text \<open>
  Claim C5. The range scheduler sends no retrigger request, and no request at all: for
  every builder, list of revisions, count and file argument the session after
  \<open>trigger_range\<close> is the session before it. For a revision with a successful and a
  coalesced matching job, a requested count of three and no files, where one retrigger with
  count two is due, the scheduler raises the error of \<open>_status_summary\<close> and has sent
  nothing.
\<close>

theorem trigger_range_sends_nothing:
  "snd (trigger_range E buildername revisions n_times dry_run files extra tbim S) = S
   \<and> trigger_range
       (example_env (statuses [SUCCESS, COALESCED]) (\<lambda>r b. [0, 1]) no_data no_history)
       ''Linux try test'' [''abc''] 3 False None None True initial_session
     = (Inl SyntaxError, initial_session)"
proof
  show "snd (trigger_range E buildername revisions n_times dry_run files extra tbim S) = S"
    by (simp add: trigger_range_def trigger_range_loop_session split: sum.splits)
next
  show "trigger_range
       (example_env (statuses [SUCCESS, COALESCED]) (\<lambda>r b. [0, 1]) no_data no_history)
       ''Linux try test'' [''abc''] 3 False None None True initial_session
     = (Inl SyntaxError, initial_session)"
    by (simp add: trigger_range_def trigger_range_revision_def status_summary_def
        example_repo_name example_env_sel)
qed

section \<open>Properties of the trigger objective resolver\<close>

lemma scan_skips_buildjson:
  "scan_build_jobs E jobs cand =
   scan_build_jobs E
     (filter (\<lambda>j. get_job_status E BuildApi j \<noteq> Inl BuildjsonException) jobs) cand"
proof (induction jobs arbitrary: cand)
  case Nil
  then show ?case by simp
next
  case (Cons j jobs)
  obtain w r f fs where c: "cand = (w, r, f, fs)" by (cases cand) auto
  show ?case unfolding c
    by (auto simp: Cons.IH [symmetric] split: sum.splits)
qed

lemma scan_returns:
  assumes "\<forall>j\<in>set jobs. get_job_status E BuildApi j = Inl BuildjsonException
             \<or> (\<exists>st. get_job_status E BuildApi j = Inr st
                  \<and> (st \<in> {RUNNING, PENDING, UNKNOWN} \<or> (\<exists>files. find_files E j = Inr files)))"
  shows "\<exists>cand'. scan_build_jobs E jobs cand = Inr cand'"
  using assms
proof (induction jobs arbitrary: cand)
  case Nil
  show ?case by (rule exI [of _ cand]) simp
next
  case (Cons j jobs)
  obtain w r f fs where c: "cand = (w, r, f, fs)" by (cases cand) auto
  from Cons.prems have rest:
    "\<forall>j\<in>set jobs. get_job_status E BuildApi j = Inl BuildjsonException
       \<or> (\<exists>st. get_job_status E BuildApi j = Inr st
            \<and> (st \<in> {RUNNING, PENDING, UNKNOWN} \<or> (\<exists>files. find_files E j = Inr files)))"
    by simp
  from Cons.prems have first:
    "get_job_status E BuildApi j = Inl BuildjsonException
       \<or> (\<exists>st. get_job_status E BuildApi j = Inr st
            \<and> (st \<in> {RUNNING, PENDING, UNKNOWN} \<or> (\<exists>files. find_files E j = Inr files)))"
    by simp
  then show ?case
  proof
    assume "get_job_status E BuildApi j = Inl BuildjsonException"
    then show ?thesis using Cons.IH [OF rest] by (simp add: c)
  next
    assume "\<exists>st. get_job_status E BuildApi j = Inr st
              \<and> (st \<in> {RUNNING, PENDING, UNKNOWN} \<or> (\<exists>files. find_files E j = Inr files))"
    then obtain st where st: "get_job_status E BuildApi j = Inr st"
      and alt: "st \<in> {RUNNING, PENDING, UNKNOWN} \<or> (\<exists>files. find_files E j = Inr files)"
      by blast
    show ?thesis
    proof (cases "st \<in> {RUNNING, PENDING, UNKNOWN}")
      case True
      then show ?thesis using st Cons.IH [OF rest] by (auto simp: c)
    next
      case False
      with alt obtain files where "find_files E j = Inr files" by blast
      then show ?thesis using st False Cons.IH [OF rest] by (auto simp: c)
    qed
  qed
qed

text \<open>
  Claim C7, as amended. When the fetch of a job's status raises the exception of the
  buildjson data source, the scan goes on with the next job and keeps its candidates. The
  resolution as a whole gives the same result as on the matching jobs without the jobs
  whose status fetch raised that exception: such a failure never aborts it. Any other
  exception of the status fetch is not caught and ends the scan.
\<close>

theorem status_error_skipped:
  "(get_job_status E BuildApi job = Inl BuildjsonException \<longrightarrow>
      scan_build_jobs E (job # jobs) (w, r, f, fs) = scan_build_jobs E jobs (w, r, f, fs))
   \<and> determine_trigger_objective E revision buildername tbim S =
     determine_trigger_objective
       (E\<lparr>get_matching_jobs := \<lambda>qs repo_name rv b.
            filter (\<lambda>j. get_job_status E BuildApi j \<noteq> Inl BuildjsonException)
              (get_matching_jobs E qs repo_name rv b)\<rparr>)
       revision buildername tbim S
   \<and> (get_job_status E BuildApi job = Inl e \<and> e \<noteq> BuildjsonException \<longrightarrow>
        scan_build_jobs E (job # jobs) (w, r, f, fs) = Inl e)"
proof (intro conjI impI)
  assume "get_job_status E BuildApi job = Inl BuildjsonException"
  then show "scan_build_jobs E (job # jobs) (w, r, f, fs) = scan_build_jobs E jobs (w, r, f, fs)"
    by simp
next
  assume "get_job_status E BuildApi job = Inl e \<and> e \<noteq> BuildjsonException"
  then show "scan_build_jobs E (job # jobs) (w, r, f, fs) = Inl e"
    by simp
next
  let ?E' = "E\<lparr>get_matching_jobs := \<lambda>qs repo_name rv b.
            filter (\<lambda>j. get_job_status E BuildApi j \<noteq> Inl BuildjsonException)
              (get_matching_jobs E qs repo_name rv b)\<rparr>"
  have scan: "scan_build_jobs ?E' js cand = scan_build_jobs E js cand" for js cand
  proof (induction js arbitrary: cand)
    case Nil
    then show ?case by simp
  next
    case (Cons j js)
    obtain w r f fs where c: "cand = (w, r, f, fs)" by (cases cand) auto
    show ?case unfolding c
      by (simp add: Cons.IH find_files_def status_info_def split: sum.splits)
  qed
  have repo: "query_repo_name_from_buildername ?E' b = query_repo_name_from_buildername E b"
    for b
    by (simp add: query_repo_name_from_buildername_def find_repo_name_def
        query_repo_name_from_buildername_clobber_def split: option.splits)
  have valid: "valid_builder ?E' b = valid_builder E b" for b
    by (simp add: valid_builder_def query_builders_def)
  have uniq: "unique_build_request ?E' b rv S = unique_build_request E b rv S" for b rv
    by (simp add: unique_build_request_def)
  show "determine_trigger_objective E revision buildername tbim S =
     determine_trigger_objective ?E' revision buildername tbim S"
    unfolding determine_trigger_objective_def repo valid uniq scan
    by (auto simp: Let_def scan_skips_buildjson [symmetric] split: sum.splits)
qed

theorem status_error_skipped_witness:
  "scan_build_jobs
     (example_env (status_answers [Inl BuildjsonException, Inr SUCCESS]) (build_jobs [0, 1])
        (job_data [None, with_files]) no_history)
     [0, 1] (None, None, None, None)
   = Inr (Some 1, None, None, Some [''pkg'', ''tests''])"
proof -
  let ?E = "example_env (status_answers [Inl BuildjsonException, Inr SUCCESS])
              (build_jobs [0, 1]) (job_data [None, with_files]) no_history"
  have raised: "get_job_status ?E BuildApi 0 = Inl BuildjsonException"
    by (simp add: example_env_sel status_answers_def)
  from status_error_skipped
         [of ?E 0 "[1]" None None None None "''abc''" "''Linux try test''" True initial_session]
       raised
  have "scan_build_jobs ?E [0, 1] (None, None, None, None)
        = scan_build_jobs ?E [1] (None, None, None, None)"
    by blast
  also have "\<dots> = Inr (Some 1, None, None, Some [''pkg'', ''tests''])"
    by (simp add: resolver_eval status_answers_def)
  finally show ?thesis .
qed

text \<open>
  Claim C7 as stated fails. An exception of the status fetch that is not the one of
  buildjson, such as a failed HTTP request, is not caught: it ends the resolution although
  a working build follows. The exception of buildjson itself ends the resolution too when
  it is raised one step later, while the data of a finished job is fetched for its files.
\<close>

theorem other_status_error_aborts:
  "determine_trigger_objective
     (example_env (status_answers [Inl OtherError, Inr SUCCESS]) (build_jobs [0, 1])
        (job_data [None, with_files]) no_history)
     ''abc'' ''Linux try test'' True initial_session
   = Inl OtherError
   \<and> determine_trigger_objective
       (example_env (statuses [SUCCESS, SUCCESS]) (build_jobs [1, 0])
          (job_data [with_files]) no_history)
       ''abc'' ''Linux try test'' True initial_session
     = Inl BuildjsonException"
  by (simp add: resolver_eval status_answers_def)

text \<open>
  Claim C8, as amended. When the file extraction for a finished build job returns no file,
  or files that are not all reachable, the job becomes the failed candidate and the scan
  goes on with the next job; nothing is raised for that job. An exception that the
  extraction itself raises (the job has no status data, no properties or no builder name)
  is the result of the scan. When the status of every job is fetched, or the fetch raises
  the exception of buildjson, and the extraction returns for every finished job, the scan
  returns its candidates.
\<close>

theorem unusable_files_failed_candidate:
  "(get_job_status E BuildApi job = Inr st \<and> st \<notin> {RUNNING, PENDING, UNKNOWN}
      \<and> find_files E job = Inr files \<and> (files = [] \<or> \<not> all_urls_reachable E files)
     \<longrightarrow> scan_build_jobs E (job # jobs) (w, r, f, fs)
          = scan_build_jobs E jobs (w, r, Some job, None))
   \<and> (get_job_status E BuildApi job = Inr st \<and> st \<notin> {RUNNING, PENDING, UNKNOWN}
        \<and> find_files E job = Inl e
       \<longrightarrow> scan_build_jobs E (job # jobs) (w, r, f, fs) = Inl e)
   \<and> ((\<forall>j\<in>set jobs. get_job_status E BuildApi j = Inl BuildjsonException
          \<or> (\<exists>st. get_job_status E BuildApi j = Inr st
               \<and> (st \<in> {RUNNING, PENDING, UNKNOWN} \<or> (\<exists>files. find_files E j = Inr files))))
       \<longrightarrow> (\<exists>cand'. scan_build_jobs E jobs cand = Inr cand'))"
proof (intro conjI impI)
  assume "get_job_status E BuildApi job = Inr st \<and> st \<notin> {RUNNING, PENDING, UNKNOWN}
      \<and> find_files E job = Inr files \<and> (files = [] \<or> \<not> all_urls_reachable E files)"
  then show "scan_build_jobs E (job # jobs) (w, r, f, fs)
          = scan_build_jobs E jobs (w, r, Some job, None)"
    by auto
next
  assume "get_job_status E BuildApi job = Inr st \<and> st \<notin> {RUNNING, PENDING, UNKNOWN}
        \<and> find_files E job = Inl e"
  then show "scan_build_jobs E (job # jobs) (w, r, f, fs) = Inl e"
    by auto
next
  assume "\<forall>j\<in>set jobs. get_job_status E BuildApi j = Inl BuildjsonException
          \<or> (\<exists>st. get_job_status E BuildApi j = Inr st
               \<and> (st \<in> {RUNNING, PENDING, UNKNOWN} \<or> (\<exists>files. find_files E j = Inr files)))"
  then show "\<exists>cand'. scan_build_jobs E jobs cand = Inr cand'"
    by (rule scan_returns)
qed

theorem unusable_files_failed_candidate_witness:
  "scan_build_jobs
     (example_env (statuses [FAILURE, SUCCESS]) (build_jobs [0, 1])
        (job_data [unreachable_files, without_files]) no_history)
     [0, 1] (None, None, None, None)
   = Inr (None, None, Some 1, None)"
  using unusable_files_failed_candidate
    [of "example_env (statuses [FAILURE, SUCCESS]) (build_jobs [0, 1])
           (job_data [unreachable_files, without_files]) no_history"
        0 FAILURE "[''gone'']" "[1]" None None None None Exception "(None, None, None, None)"]
  by (simp add: resolver_eval unreachable_files_def without_files_def)

text \<open>
  Claim C8 as stated fails: a finished build job whose status data has no properties makes
  the file extraction raise, and the exception is the result of the resolution.
\<close>

theorem missing_properties_raise:
  "determine_trigger_objective
     (example_env (statuses [FAILURE]) (build_jobs [0]) (job_data [Some None]) no_history)
     ''abc'' ''Linux try test'' True initial_session
   = Inl Exception"
  by (simp add: resolver_eval)

text \<open>
  Claim C2. The scan does not stop at a job in flight: it records the job and goes on with
  the next one. For an in-flight build job followed by a working build the resolution
  returns the requested builder with the files of the working build, so the working build
  wins although it comes later.
\<close>

theorem working_build_after_running_job:
  "determine_trigger_objective
     (example_env (statuses [RUNNING, SUCCESS]) (build_jobs [0, 1])
        (job_data [None, with_files]) no_history)
     ''abc'' ''Linux try test'' True initial_session
   = Inr (Some ''Linux try test'', Some [''pkg'', ''tests''])"
  by (simp add: resolver_eval)

theorem working_build_after_running_job_witness:
  "determine_trigger_objective
     (example_env (statuses [RUNNING, SUCCESS]) (build_jobs [0, 1])
        (job_data [None, with_files]) no_history)
     ''abc'' ''Linux try test'' True initial_session
   \<noteq> Inr (None, None)"
  using working_build_after_running_job by simp

section \<open>Properties of the session ledger\<close>

lemma trigger_sch_mgr:
  "sch_mgr (snd (trigger E b r files dry extra S)) =
   (sch_mgr S)(r \<mapsto> (case sch_mgr S r of None \<Rightarrow> [] | Some bs \<Rightarrow> bs) @ [b])"
  by (auto simp: trigger_def Let_def split: sum.splits option.splits)

lemma trigger_calls_eq:
  "calls (snd (trigger E b r files dry extra S)) =
   calls S @ (case query_repo_name_from_buildername E b of
                Inl e \<Rightarrow> []
              | Inr repo_name \<Rightarrow> [Trigger_arbitrary_job repo_name b r files dry extra])"
  by (auto simp: trigger_def Let_def split: sum.splits option.splits)

lemma trigger_recorded:
  "recorded rv B (snd (trigger E b r files dry extra S)) =
   (recorded rv B S \<or> (r = rv \<and> b = B))"
  by (auto simp: recorded_def trigger_sch_mgr split: option.splits)

lemma trigger_trigger_calls:
  "trigger_calls rv B (snd (trigger E b r files dry extra S)) =
   trigger_calls rv B S +
     (if b = B \<and> r = rv \<and> (\<exists>repo_name. query_repo_name_from_buildername E b = Inr repo_name)
      then 1 else 0)"
  by (auto simp: trigger_calls_def trigger_calls_eq split: sum.splits)

lemma trigger_other:
  assumes "at_most_once rv B S" and "b \<noteq> B \<or> r \<noteq> rv"
  shows "at_most_once rv B (snd (trigger E b r files dry extra S))"
  using assms by (auto simp: at_most_once_def trigger_trigger_calls trigger_recorded)

lemma trigger_first:
  assumes "at_most_once rv B S" and "\<not> recorded rv B S"
  shows "at_most_once rv B (snd (trigger E B rv files dry extra S))"
  using assms by (auto simp: at_most_once_def trigger_trigger_calls trigger_recorded)

lemma trigger_times_other:
  assumes "at_most_once rv B S" and "b \<noteq> B \<or> r \<noteq> rv"
  shows "at_most_once rv B (snd (trigger_times E n b r files dry extra reqs S))"
  using assms
proof (induction n arbitrary: reqs S)
  case 0
  then show ?case by simp
next
  case (Suc n)
  obtain res S' where t: "trigger E b r files dry extra S = (res, S')"
    by (cases "trigger E b r files dry extra S")
  have "at_most_once rv B S'"
    using trigger_other [OF Suc.prems, of E files dry extra] t by simp
  then show ?case using Suc.IH Suc.prems(2) t by (cases res) auto
qed

lemma trigger_times_first:
  assumes "at_most_once rv B S" and "\<not> recorded rv B S"
  shows "at_most_once rv B (snd (trigger_times E (Suc 0) B rv files dry extra reqs S))"
proof -
  obtain res S' where t: "trigger E B rv files dry extra S = (res, S')"
    by (cases "trigger E B rv files dry extra S")
  have "at_most_once rv B S'"
    using trigger_first [OF assms, of E files dry extra] t by simp
  then show ?thesis using t by (cases res) auto
qed

lemma objective_cases:
  assumes "determine_trigger_objective E r T tbim S = Inr (btt, fs)"
  shows "btt = None \<or> btt = Some T
         \<or> (btt = Some (determine_upstream_builder E T)
             \<and> unique_build_request E (determine_upstream_builder E T) r S)"
  using assms
  by (auto simp: determine_trigger_objective_def Let_def split: sum.splits if_splits)

lemma unique_not_recorded:
  "unique_build_request E B rv S \<Longrightarrow> \<not> is_downstream E B \<Longrightarrow> \<not> recorded rv B S"
  by (auto simp: unique_build_request_def recorded_def split: option.splits if_splits)


lemma snd_dry_run:
  "snd (case t of (Inl e, S') \<Rightarrow> (Inl e, S') | (Inr x, S') \<Rightarrow> (Inr y, S')) = snd t"
  by (cases t) (auto split: sum.splits)

lemma trigger_job_at_most_once:
  assumes inv: "at_most_once rv B S" and other: "T \<noteq> B" and nofiles: "\<not> truthy files"
    and build: "\<not> is_downstream E B"
  shows "at_most_once rv B (snd (trigger_job E r T n files dry extra tbim S))"
proof (cases "query_repo_name_from_buildername E T")
  case (Inl e)
  then show ?thesis using inv by (simp add: trigger_job_def)
next
  case (Inr repo_name)
  show ?thesis
  proof (cases "\<not> valid_revision E (query_repo_url E repo_name) r \<or> \<not> valid_builder E T")
    case True
    then show ?thesis using inv Inr by (auto simp: trigger_job_def Let_def)
  next
    case False
    note ok = False
    show ?thesis
    proof (cases "determine_trigger_objective E r T tbim S")
      case (Inl e)
      then show ?thesis using inv Inr ok nofiles by (simp add: trigger_job_def Let_def)
    next
      case obj: (Inr objective)
      obtain btt fs where o: "objective = (btt, fs)" by (cases objective)
      let ?U = "determine_upstream_builder E T"
      from objective_cases [of E r T tbim S btt fs] obj o
      consider (none) "btt = None" | (same) "btt = Some T"
        | (up) "btt = Some ?U" "?U \<noteq> T" "unique_build_request E ?U r S"
        by auto
      then show ?thesis
      proof cases
        case none
        then show ?thesis using inv Inr ok nofiles obj o
          by (simp add: trigger_job_def Let_def)
      next
        case same
        have step: "at_most_once rv B (snd (trigger E T r fs d extra S))" for d
          using trigger_other [OF inv, of T r] other by simp
        have loop: "at_most_once rv B (snd (trigger_times E m T r fs d extra [] S))" for m d
          using trigger_times_other [OF inv, of T r] other by simp
        show ?thesis using inv Inr ok nofiles obj o same step loop
          by (simp add: trigger_job_def Let_def snd_dry_run)
      next
        case up
        have step: "at_most_once rv B (snd (trigger E ?U r fs d extra S))" for d
        proof (cases "?U = B \<and> r = rv")
          case True
          then have "\<not> recorded rv B S" using up(3) build unique_not_recorded by blast
          then show ?thesis using trigger_first [OF inv] True by simp
        next
          case False
          then show ?thesis using trigger_other [OF inv, of ?U r] by blast
        qed
        have loop: "at_most_once rv B (snd (trigger_times E (Suc 0) ?U r fs d extra [] S))"
          for d
        proof (cases "?U = B \<and> r = rv")
          case True
          then have "\<not> recorded rv B S" using up(3) build unique_not_recorded by blast
          then show ?thesis using trigger_times_first [OF inv] True by simp
        next
          case False
          then show ?thesis using trigger_times_other [OF inv, of ?U r] by blast
        qed
        show ?thesis using inv Inr ok nofiles obj o up(1,2) step loop
          by (simp add: trigger_job_def Let_def snd_dry_run)
      qed
    qed
  qed
qed


lemma retrigger_at_most_once:
  "at_most_once rv B (S\<lparr>calls := calls S @ [Make_retrigger_request repo_name i n dry]\<rparr>)
   = at_most_once rv B S"
  by (simp add: at_most_once_def trigger_calls_def recorded_def)

lemma trigger_range_revision_cases:
  "snd (trigger_range_revision E repo_name repo_url T n dry files extra tbim r S) = S
   \<or> (\<exists>i m. snd (trigger_range_revision E repo_name repo_url T n dry files extra tbim r S)
          = S\<lparr>calls := calls S @ [Make_retrigger_request repo_name i m dry]\<rparr>)
   \<or> (\<exists>m. snd (trigger_range_revision E repo_name repo_url T n dry files extra tbim r S)
          = snd (trigger_job E r T m files dry extra tbim S))"
proof (cases "valid_revision E repo_url r")
  case False
  then show ?thesis by (simp add: trigger_range_revision_def)
next
  case valid: True
  let ?jobs = "get_matching_jobs E (query_src S) repo_name r T"
  show ?thesis
  proof (cases "status_summary E (query_src S) (Job_list ?jobs)")
    case (Inl e)
    then show ?thesis using valid by (simp add: trigger_range_revision_def)
  next
    case (Inr c)
    obtain s p ru co f where c: "c = (s, p, ru, co, f)" by (cases c) auto
    let ?potential = "int (p + ru + s + f)"
    show ?thesis
    proof (cases "?potential \<ge> n")
      case True
      then show ?thesis using valid Inr c by (simp add: trigger_range_revision_def)
    next
      case short: False
      show ?thesis
      proof (cases "length ?jobs > 0 \<and> files = None")
        case True
        then show ?thesis using valid Inr c short
          by (auto simp: trigger_range_revision_def Let_def)
      next
        case False
        let ?t = "trigger_job E r T (n - ?potential) files dry extra tbim S"
        have "snd (trigger_range_revision E repo_name repo_url T n dry files extra tbim r S)
              = snd ?t"
          using valid Inr c short False
          by (cases ?t) (auto simp: trigger_range_revision_def Let_def split: sum.splits)
        then show ?thesis by blast
      qed
    qed
  qed
qed

lemma trigger_range_revision_at_most_once:
  assumes inv: "at_most_once rv B S" and other: "T \<noteq> B" and nofiles: "\<not> truthy files"
    and build: "\<not> is_downstream E B"
  shows "at_most_once rv B
           (snd (trigger_range_revision E repo_name repo_url T n dry files extra tbim r S))"
  using trigger_range_revision_cases [of E repo_name repo_url T n dry files extra tbim r S]
    inv trigger_job_at_most_once [OF inv other nofiles build, of r _ dry extra tbim]
  by (auto simp: retrigger_at_most_once)

lemma trigger_range_loop_at_most_once:
  assumes "at_most_once rv B S" and "T \<noteq> B" and "\<not> truthy files" and "\<not> is_downstream E B"
  shows "at_most_once rv B
           (snd (trigger_range_loop E repo_name repo_url T n dry files extra tbim revisions S))"
  using assms(1)
proof (induction revisions arbitrary: S)
  case Nil
  then show ?case by simp
next
  case (Cons r revisions)
  obtain res S' where
    t: "trigger_range_revision E repo_name repo_url T n dry files extra tbim r S = (res, S')"
    by (cases "trigger_range_revision E repo_name repo_url T n dry files extra tbim r S")
  have "at_most_once rv B S'"
    using trigger_range_revision_at_most_once [OF Cons.prems assms(2,3,4), of repo_name repo_url
        n dry extra tbim r] t by simp
  then show ?case using Cons.IH t by (cases res) auto
qed

lemma invoke_at_most_once:
  assumes "at_most_once rv B S" and "requested_builder i \<noteq> B" and "\<not> truthy (given_files i)"
    and "\<not> is_downstream E B"
  shows "at_most_once rv B (invoke E i S)"
proof (cases i)
  case (Trigger_job r T n files dry extra tbim)
  then show ?thesis using assms trigger_job_at_most_once by simp
next
  case (Trigger_range T revisions n dry files extra tbim)
  then show ?thesis using assms trigger_range_loop_at_most_once
    by (auto simp: trigger_range_def split: sum.splits)
qed

lemma run_session_at_most_once:
  assumes "at_most_once rv B S"
    and "\<forall>(E, i)\<in>set invocations.
           requested_builder i \<noteq> B \<and> \<not> truthy (given_files i) \<and> \<not> is_downstream E B"
  shows "at_most_once rv B (run_session invocations S)"
  using assms
proof (induction invocations arbitrary: S)
  case Nil
  then show ?case by simp
next
  case (Cons p invocations)
  obtain E i where p: "p = (E, i)" by (cases p)
  from Cons.prems(2) p have here:
    "requested_builder i \<noteq> B" "\<not> truthy (given_files i)" "\<not> is_downstream E B"
    by auto
  from Cons.prems(2) have rest: "\<forall>(E, i)\<in>set invocations.
           requested_builder i \<noteq> B \<and> \<not> truthy (given_files i) \<and> \<not> is_downstream E B"
    by simp
  have "at_most_once rv B (invoke E i S)"
    using invoke_at_most_once [OF Cons.prems(1) here] .
  then show ?case using Cons.IH rest p by simp
qed

text \<open>
  Claim C1, as amended. In a session that starts with an empty ledger, over any sequence of
  calls of \<open>trigger_job\<close> and \<open>trigger_range\<close> without files in which a build builder
  (a builder that is not downstream) is never itself the requested builder, at most one
  trigger request is sent for that builder on any revision, whatever the requested counts
  and however many test builders depend on it.
\<close>

theorem build_triggered_at_most_once:
  assumes "\<forall>(E, i)\<in>set invocations.
             requested_builder i \<noteq> B \<and> \<not> truthy (given_files i) \<and> \<not> is_downstream E B"
  shows "trigger_calls rv B (run_session invocations initial_session) \<le> 1"
proof -
  have "at_most_once rv B initial_session"
    by (simp add: at_most_once_def trigger_calls_def initial_session_def)
  then have "at_most_once rv B (run_session invocations initial_session)"
    using assms by (rule run_session_at_most_once)
  then show ?thesis by (auto simp: at_most_once_def)
qed

text \<open>The equations that evaluate a session in the example environment.\<close>

lemmas session_eval =
  trigger_job_def trigger_range_def trigger_range_revision_def trigger_def
  determine_trigger_objective_def unique_build_request_def truthy_def status_summary_def
  example_repo_name example_env_sel valid_builder_def query_builders_def initial_session_def
  trigger_calls_def Let_def

text \<open>
  Claim C1 as stated fails: a build builder that is requested itself is resolved without
  a look at the ledger and is triggered as many times as requested.
\<close>

theorem build_requested_twice:
  "trigger_calls ''abc'' ''Linux try build''
     (run_session
        [(example_env (statuses []) (\<lambda>r b. []) no_data no_history,
          Trigger_job ''abc'' ''Linux try build'' 2 None False None True)]
        initial_session) = 2"
  by (simp add: session_eval numeral_2_eq_2)

theorem build_triggered_at_most_once_witness:
  "trigger_calls ''abc'' ''Linux try build''
     (run_session
        [(example_env (statuses []) (\<lambda>r b. []) no_data no_history,
          Trigger_job ''abc'' ''Linux try test'' 3 None False None True),
         (example_env (statuses []) (\<lambda>r b. []) no_data no_history,
          Trigger_range ''Linux try talos'' [''abc''] 2 False None None True)]
        initial_session) = 1"
  using build_triggered_at_most_once
    [of "[(example_env (statuses []) (\<lambda>r b. []) no_data no_history,
          Trigger_job ''abc'' ''Linux try test'' 3 None False None True),
         (example_env (statuses []) (\<lambda>r b. []) no_data no_history,
          Trigger_range ''Linux try talos'' [''abc''] 2 False None None True)]"
        "''Linux try build''" "''abc''"]
  by (simp add: session_eval)

lemma trigger_times_recorded:
  "recorded rv B S \<Longrightarrow> recorded rv B (snd (trigger_times E n b r files dry extra reqs S))"
proof (induction n arbitrary: reqs S)
  case 0
  then show ?case by simp
next
  case (Suc n)
  obtain res S' where t: "trigger E b r files dry extra S = (res, S')"
    by (cases "trigger E b r files dry extra S")
  have "recorded rv B S'"
    using Suc.prems trigger_recorded [of rv B E b r files dry extra S] t by simp
  then show ?case using Suc.IH t by (cases res) auto
qed

lemma trigger_job_cases:
  "snd (trigger_job E r T n files dry extra tbim S) = S
   \<or> (\<exists>b fs. snd (trigger_job E r T n files dry extra tbim S)
               = snd (trigger E b r fs dry extra S))
   \<or> (\<exists>b fs m. snd (trigger_job E r T n files dry extra tbim S)
                 = snd (trigger_times E m b r fs dry extra [] S))"
proof (cases "query_repo_name_from_buildername E T")
  case (Inl e)
  then show ?thesis by (simp add: trigger_job_def)
next
  case (Inr repo_name)
  show ?thesis
  proof (cases "\<not> valid_revision E (query_repo_url E repo_name) r \<or> \<not> valid_builder E T")
    case True
    then show ?thesis using Inr by (auto simp: trigger_job_def Let_def)
  next
    case False
    define decision where "decision =
      (if truthy files then Inr (Some T, files, n)
       else (case determine_trigger_objective E r T tbim S of
               Inl e \<Rightarrow> Inl e
             | Inr (builder_to_trigger, files') \<Rightarrow>
                Inr (builder_to_trigger, files',
                     if builder_to_trigger \<noteq> Some T \<and> n \<noteq> 1 then 1 else n)))"
    have job: "trigger_job E r T n files dry extra tbim S =
      (case decision of
         Inl e \<Rightarrow> (Inl e, S)
       | Inr (builder_to_trigger, files, n_times) \<Rightarrow>
          (case builder_to_trigger of
             None \<Rightarrow> (Inr [], S)
           | Some b \<Rightarrow>
              if b = [] then (Inr [], S)
              else if dry
              then (case trigger E b r files dry extra S of
                      (Inl e, S') \<Rightarrow> (Inl e, S')
                    | (Inr _, S') \<Rightarrow> (Inr [], S'))
              else trigger_times E (nat n_times) b r files dry extra [] S))"
      using Inr False unfolding trigger_job_def decision_def Let_def by simp
    show ?thesis
    proof (cases decision)
      case (Inl e)
      then show ?thesis unfolding job by simp
    next
      case (Inr d)
      obtain btt fs m where d: "d = (btt, fs, m)" by (cases d) auto
      show ?thesis
      proof (cases btt)
        case None
        then show ?thesis unfolding job Inr d by simp
      next
        case (Some b)
        show ?thesis
        proof (cases "b = []")
          case True
          then show ?thesis unfolding job Inr d Some by simp
        next
          case nonempty: False
          show ?thesis
          proof (cases dry)
            case True
            have "snd (trigger_job E r T n files dry extra tbim S)
                  = snd (trigger E b r fs dry extra S)"
              unfolding job Inr d Some using nonempty True by (simp add: snd_dry_run)
            then show ?thesis by blast
          next
            case False
            have "snd (trigger_job E r T n files dry extra tbim S)
                  = snd (trigger_times E (nat m) b r fs dry extra [] S)"
              unfolding job Inr d Some using nonempty False by simp
            then show ?thesis by blast
          qed
        qed
      qed
    qed
  qed
qed

lemma trigger_job_recorded:
  assumes "recorded rv B S"
  shows "recorded rv B (snd (trigger_job E r T n files dry extra tbim S))"
  using trigger_job_cases [of E r T n files dry extra tbim S] assms
  by (auto simp: trigger_recorded trigger_times_recorded)

lemma trigger_range_revision_recorded:
  assumes "recorded rv B S"
  shows "recorded rv B
           (snd (trigger_range_revision E repo_name repo_url T n dry files extra tbim r S))"
  using trigger_range_revision_cases [of E repo_name repo_url T n dry files extra tbim r S]
    assms trigger_job_recorded [OF assms, of E r T _ files dry extra tbim]
  by (auto simp: recorded_def)

lemma trigger_range_loop_recorded:
  "recorded rv B S \<Longrightarrow>
   recorded rv B
     (snd (trigger_range_loop E repo_name repo_url T n dry files extra tbim revisions S))"
proof (induction revisions arbitrary: S)
  case Nil
  then show ?case by simp
next
  case (Cons r revisions)
  obtain res S' where
    t: "trigger_range_revision E repo_name repo_url T n dry files extra tbim r S = (res, S')"
    by (cases "trigger_range_revision E repo_name repo_url T n dry files extra tbim r S")
  have "recorded rv B S'"
    using trigger_range_revision_recorded [OF Cons.prems, of E repo_name repo_url T n dry files
        extra tbim r] t by simp
  then show ?case using Cons.IH t by (cases res) auto
qed

lemma invoke_recorded:
  assumes "recorded rv B S"
  shows "recorded rv B (invoke E i S)"
proof (cases i)
  case (Trigger_job r T n files dry extra tbim)
  then show ?thesis using assms trigger_job_recorded by simp
next
  case (Trigger_range T revisions n dry files extra tbim)
  then show ?thesis using assms trigger_range_loop_recorded
    by (auto simp: trigger_range_def split: sum.splits)
qed

lemma run_session_recorded:
  "recorded rv B S \<Longrightarrow> recorded rv B (run_session invocations S)"
proof (induction invocations arbitrary: S)
  case Nil
  then show ?case by simp
next
  case (Cons p invocations)
  obtain E i where p: "p = (E, i)" by (cases p)
  show ?case using Cons.IH [OF invoke_recorded [OF Cons.prems, of E i]] p by simp
qed

lemma recorded_not_unique:
  "recorded rv B S \<Longrightarrow> \<not> is_downstream E B \<Longrightarrow> \<not> unique_build_request E B rv S"
  by (auto simp: unique_build_request_def recorded_def split: option.splits)

text \<open>
  Claim C10. Every call of \<open>trigger\<close> appends the builder to the ledger entry of the
  revision, whatever the dry-run flag and whatever the builder, and before the backend is
  reached. For a builder that is not downstream the ledger check then fails for that
  revision until the end of the session, whatever is called afterwards. The entry of a
  revision can hold a test builder, and the same builder twice.
\<close>

theorem trigger_appends_to_ledger:
  "sch_mgr (snd (trigger E builder revision files dry_run extra S)) revision
     = Some ((case sch_mgr S revision of None \<Rightarrow> [] | Some builders \<Rightarrow> builders) @ [builder])
   \<and> (\<not> is_downstream E' builder \<longrightarrow>
        \<not> unique_build_request E' builder revision
            (run_session invocations (snd (trigger E builder revision files dry_run extra S))))
   \<and> sch_mgr
       (snd (trigger_job (example_env (statuses []) (\<lambda>r b. []) no_data no_history)
               ''abc'' ''Linux try test'' 2 (Some [''pkg'']) False None True initial_session))
       ''abc''
     = Some [''Linux try test'', ''Linux try test'']"
proof (intro conjI impI)
  show "sch_mgr (snd (trigger E builder revision files dry_run extra S)) revision
     = Some ((case sch_mgr S revision of None \<Rightarrow> [] | Some builders \<Rightarrow> builders) @ [builder])"
    by (simp add: trigger_sch_mgr)
next
  assume build: "\<not> is_downstream E' builder"
  have "recorded revision builder (snd (trigger E builder revision files dry_run extra S))"
    by (simp add: trigger_recorded)
  then have "recorded revision builder
      (run_session invocations (snd (trigger E builder revision files dry_run extra S)))"
    by (rule run_session_recorded)
  then show "\<not> unique_build_request E' builder revision
            (run_session invocations (snd (trigger E builder revision files dry_run extra S)))"
    using build by (rule recorded_not_unique)
next
  show "sch_mgr
       (snd (trigger_job (example_env (statuses []) (\<lambda>r b. []) no_data no_history)
               ''abc'' ''Linux try test'' 2 (Some [''pkg'']) False None True initial_session))
       ''abc''
     = Some [''Linux try test'', ''Linux try test'']"
    by (simp add: session_eval numeral_2_eq_2)
qed

theorem trigger_appends_to_ledger_witness:
  "snd (trigger_job (example_env (statuses []) (\<lambda>r b. []) no_data no_history)
          ''abc'' ''Linux try test'' 1 None True None True initial_session)
   = snd (trigger (example_env (statuses []) (\<lambda>r b. []) no_data no_history)
            ''Linux try build'' ''abc'' None True None initial_session)
   \<and> \<not> unique_build_request (example_env (statuses []) (\<lambda>r b. []) no_data no_history)
         ''Linux try build'' ''abc''
         (snd (trigger_job (example_env (statuses []) (\<lambda>r b. []) no_data no_history)
                 ''abc'' ''Linux try test'' 1 None True None True initial_session))
   \<and> calls (snd (trigger_job (example_env (statuses []) (\<lambda>r b. []) no_data no_history)
                 ''abc'' ''Linux try talos'' 1 None False None True
               (snd (trigger_job (example_env (statuses []) (\<lambda>r b. []) no_data no_history)
                       ''abc'' ''Linux try test'' 1 None True None True initial_session))))
     = [Trigger_arbitrary_job ''try'' ''Linux try build'' ''abc'' None True None]"
proof -
  let ?E = "example_env (statuses []) (\<lambda>r b. []) no_data no_history"
  have resolve:
    "snd (trigger_job ?E ''abc'' ''Linux try test'' 1 None True None True initial_session)
      = snd (trigger ?E ''Linux try build'' ''abc'' None True None initial_session)"
    by (simp add: session_eval)
  have build: "\<not> is_downstream ?E ''Linux try build''"
    by (simp add: example_env_sel)
  from trigger_appends_to_ledger
         [of ?E "''Linux try build''" "''abc''" None True None initial_session ?E "[]"] build
  have marked: "\<not> unique_build_request ?E ''Linux try build'' ''abc''
      (snd (trigger ?E ''Linux try build'' ''abc'' None True None initial_session))"
    by simp
  have later: "calls (snd (trigger_job ?E ''abc'' ''Linux try talos'' 1 None False None True
               (snd (trigger ?E ''Linux try build'' ''abc'' None True None initial_session))))
     = [Trigger_arbitrary_job ''try'' ''Linux try build'' ''abc'' None True None]"
    by (simp add: session_eval)
  show ?thesis using resolve marked later by simp
qed

section \<open>Properties of the backfill window finder\<close>

text \<open>
  On a list of revisions that is not empty the first pass of the loop calls
  \<open>_status_summary\<close>, in both modes, and the function ends in its error.
\<close>

lemma backfill_nonempty_revisions:
  assumes "query_repo_name_from_buildername E b = Inr repo_name" and "revisions \<noteq> []"
  shows "filter_backfill_revlist E b revisions only_successful S = Inl SyntaxError"
  using assms
  by (cases revisions) (simp_all add: filter_backfill_revlist_def status_summary_def Let_def)

text \<open>
  Claim C6. On an empty list of revisions the function raises IndexError in both modes,
  in the log message that reads the first and the last revision, where the claim gives the
  entire (empty) input as the window.
\<close>

theorem backfill_empty_revisions:
  "filter_backfill_revlist (example_env (statuses []) (\<lambda>r b. []) no_data no_history)
     ''Linux try test'' [] False initial_session = Inl IndexError
   \<and> filter_backfill_revlist (example_env (statuses []) (\<lambda>r b. []) no_data no_history)
       ''Linux try test'' [] True initial_session = Inl IndexError"
  by (simp add: filter_backfill_revlist_def example_repo_name)

section \<open>Properties of manual backfill\<close>

lemma trigger_extends: "\<exists>more. calls (snd (trigger E b r files dry extra S)) = calls S @ more"
  by (simp add: trigger_calls_eq)

lemma trigger_times_extends:
  "\<exists>more. calls (snd (trigger_times E n b r files dry extra reqs S)) = calls S @ more"
proof (induction n arbitrary: reqs S)
  case 0
  then show ?case by simp
next
  case (Suc n)
  obtain res S' where t: "trigger E b r files dry extra S = (res, S')"
    by (cases "trigger E b r files dry extra S")
  from trigger_extends [of E b r files dry extra S] t
  obtain m1 where m1: "calls S' = calls S @ m1" by auto
  show ?case
  proof (cases res)
    case (Inl e)
    then show ?thesis using t m1 by simp
  next
    case (Inr req)
    from Suc.IH [of "case req of None \<Rightarrow> reqs | Some x \<Rightarrow> reqs @ [x]" S']
    obtain m2 where "calls (snd (trigger_times E n b r files dry extra
        (case req of None \<Rightarrow> reqs | Some x \<Rightarrow> reqs @ [x]) S')) = calls S' @ m2"
      by blast
    then show ?thesis using t m1 Inr by simp
  qed
qed

lemma trigger_job_extends:
  "\<exists>more. calls (snd (trigger_job E r T n files dry extra tbim S)) = calls S @ more"
  using trigger_job_cases [of E r T n files dry extra tbim S]
    trigger_extends [of E _ r _ dry extra S] trigger_times_extends [of E _ _ r _ dry extra "[]" S]
  by (metis append_Nil2)

lemma trigger_range_revision_extends:
  "\<exists>more. calls (snd (trigger_range_revision E repo_name repo_url T n dry files extra tbim r S))
     = calls S @ more"
  using trigger_range_revision_cases [of E repo_name repo_url T n dry files extra tbim r S]
    trigger_job_extends [of E r T _ files dry extra tbim S]
  by (auto simp: )

lemma trigger_range_loop_extends:
  "\<exists>more. calls (snd (trigger_range_loop E repo_name repo_url T n dry files extra tbim
                        revisions S))
     = calls S @ more"
proof (induction revisions arbitrary: S)
  case Nil
  then show ?case by simp
next
  case (Cons r revisions)
  obtain res S' where
    t: "trigger_range_revision E repo_name repo_url T n dry files extra tbim r S = (res, S')"
    by (cases "trigger_range_revision E repo_name repo_url T n dry files extra tbim r S")
  from trigger_range_revision_extends [of E repo_name repo_url T n dry files extra tbim r S] t
  obtain m1 where m1: "calls S' = calls S @ m1" by auto
  show ?case
  proof (cases res)
    case (Inl e)
    then show ?thesis using t m1 by simp
  next
    case (Inr u)
    from Cons.IH [of S'] obtain m2 where
      "calls (snd (trigger_range_loop E repo_name repo_url T n dry files extra tbim
                     revisions S')) = calls S' @ m2"
      by blast
    then show ?thesis using t m1 Inr by simp
  qed
qed

lemma trigger_range_extends:
  "\<exists>more. calls (snd (trigger_range E T revisions n dry files extra tbim S)) = calls S @ more"
  using trigger_range_loop_extends
  by (auto simp: trigger_range_def split: sum.splits)

text \<open>
  The functions that trigger jobs leave the query source as it is and send no request to
  the revision history.
\<close>

lemma trigger_keeps:
  "query_src (snd (trigger E b r files dry extra S)) = query_src S"
  "history_requests (snd (trigger E b r files dry extra S)) = history_requests S"
  by (auto simp: trigger_def history_requests_def Let_def split: sum.splits)

lemma trigger_times_keeps:
  "query_src (snd (trigger_times E n b r files dry extra reqs S)) = query_src S
   \<and> history_requests (snd (trigger_times E n b r files dry extra reqs S))
       = history_requests S"
proof (induction n arbitrary: reqs S)
  case 0
  then show ?case by simp
next
  case (Suc n)
  obtain res S' where t: "trigger E b r files dry extra S = (res, S')"
    by (cases "trigger E b r files dry extra S")
  have "query_src S' = query_src S" "history_requests S' = history_requests S"
    using trigger_keeps [of E b r files dry extra S] t by simp_all
  then show ?case using Suc.IH t by (cases res) auto
qed

lemma trigger_job_keeps:
  "query_src (snd (trigger_job E r T n files dry extra tbim S)) = query_src S
   \<and> history_requests (snd (trigger_job E r T n files dry extra tbim S))
       = history_requests S"
  using trigger_job_cases [of E r T n files dry extra tbim S]
  by (auto simp: trigger_keeps trigger_times_keeps)

lemma trigger_range_revision_keeps:
  "query_src (snd (trigger_range_revision E repo_name repo_url T n dry files extra tbim r S))
     = query_src S
   \<and> history_requests
         (snd (trigger_range_revision E repo_name repo_url T n dry files extra tbim r S))
       = history_requests S"
proof -
  let ?S' = "snd (trigger_range_revision E repo_name repo_url T n dry files extra tbim r S)"
  from trigger_range_revision_cases [of E repo_name repo_url T n dry files extra tbim r S]
  consider (same) "?S' = S"
    | (retrigger) i m where
        "?S' = S\<lparr>calls := calls S @ [Make_retrigger_request repo_name i m dry]\<rparr>"
    | (job) m where "?S' = snd (trigger_job E r T m files dry extra tbim S)"
    by blast
  then show ?thesis
  proof cases
    case same
    then show ?thesis by simp
  next
    case retrigger
    then show ?thesis by (simp add: history_requests_def)
  next
    case job
    then show ?thesis by (simp add: trigger_job_keeps)
  qed
qed

lemma trigger_range_loop_keeps:
  "query_src (snd (trigger_range_loop E repo_name repo_url T n dry files extra tbim
                     revisions S)) = query_src S
   \<and> history_requests (snd (trigger_range_loop E repo_name repo_url T n dry files extra tbim
                              revisions S)) = history_requests S"
proof (induction revisions arbitrary: S)
  case Nil
  then show ?case by simp
next
  case (Cons r revisions)
  obtain res S' where
    t: "trigger_range_revision E repo_name repo_url T n dry files extra tbim r S = (res, S')"
    by (cases "trigger_range_revision E repo_name repo_url T n dry files extra tbim r S")
  have "query_src S' = query_src S \<and> history_requests S' = history_requests S"
    using trigger_range_revision_keeps [of E repo_name repo_url T n dry files extra tbim r S] t
    by simp
  then show ?case using Cons.IH [of S'] t by (cases res) auto
qed

lemma trigger_range_keeps:
  "query_src (snd (trigger_range E T revisions n dry files extra tbim S)) = query_src S
   \<and> history_requests (snd (trigger_range E T revisions n dry files extra tbim S))
       = history_requests S"
  by (simp add: trigger_range_def trigger_range_loop_keeps split: sum.splits)

text \<open>
  Claim C9, as amended. When the builder name resolves to a repository, manual backfill
  switches the query source to Treeherder and sends one request to the revision history,
  before any other request: for the pivot revision, with \<open>before\<close> the given maximum
  and \<open>after = -1\<close>. It sends no other request to the revision history.
\<close>

theorem manual_backfill_request:
  assumes "query_repo_url_from_buildername E buildername = Inr repo_url"
  shows "query_src (snd (manual_backfill E revision buildername max_revisions dry_run S))
      = TreeherderApi
    \<and> (\<exists>more. calls (snd (manual_backfill E revision buildername max_revisions dry_run S))
          = calls S @
              Query_revisions_before_and_after repo_url revision max_revisions (- 1) # more)
    \<and> history_requests (snd (manual_backfill E revision buildername max_revisions dry_run S))
      = history_requests S @
          [Query_revisions_before_and_after repo_url revision max_revisions (- 1)]"
proof -
  let ?S2 = "S\<lparr>query_src := TreeherderApi,
                 calls := calls S @
                   [Query_revisions_before_and_after repo_url revision max_revisions (- 1)]\<rparr>"
  let ?window = "filter_backfill_revlist E buildername
              (query_revisions_range_from_revision_before_and_after E repo_url revision
                 max_revisions (- 1)) False ?S2"
  let ?range = "\<lambda>window. trigger_range E buildername window 1 dry_run None
            (Some (Mozci_request ''manual_backfill'' [buildername])) True ?S2"
  have eq: "manual_backfill E revision buildername max_revisions dry_run S =
      (case ?window of Inl e \<Rightarrow> (Inl e, ?S2) | Inr window \<Rightarrow> ?range window)"
    using assms by (simp add: manual_backfill_def set_query_source_def Let_def split: sum.splits)
  have S2: "query_src ?S2 = TreeherderApi"
    "history_requests ?S2 = history_requests S @
       [Query_revisions_before_and_after repo_url revision max_revisions (- 1)]"
    by (simp_all add: history_requests_def)
  show ?thesis
  proof (cases ?window)
    case (Inl e)
    then have "snd (manual_backfill E revision buildername max_revisions dry_run S) = ?S2"
      unfolding eq by simp
    then show ?thesis using S2 by simp
  next
    case (Inr window)
    then have snd_eq: "snd (manual_backfill E revision buildername max_revisions dry_run S)
        = snd (?range window)"
      unfolding eq by simp
    from trigger_range_extends [of E buildername window 1 dry_run None
        "Some (Mozci_request ''manual_backfill'' [buildername])" True ?S2]
    obtain more where "calls (snd (?range window)) = calls ?S2 @ more"
      by blast
    then have "calls (snd (?range window)) = calls S @
        Query_revisions_before_and_after repo_url revision max_revisions (- 1) # more"
      by simp
    then show ?thesis
      unfolding snd_eq
      using S2 trigger_range_keeps [of E buildername window 1 dry_run None
        "Some (Mozci_request ''manual_backfill'' [buildername])" True ?S2]
      by simp
  qed
qed

lemmas backfill_eval =
  manual_backfill_def query_repo_url_from_buildername_def set_query_source_def
  filter_backfill_revlist_def fixed_history_def history_requests_def

theorem manual_backfill_request_witness:
  "query_src (snd (manual_backfill
                     (example_env (statuses []) (\<lambda>r b. []) no_data
                        (fixed_history [''r2'', ''r1'']))
                     ''r3'' ''Linux try test'' 2 False initial_session))
     = TreeherderApi
   \<and> history_requests (snd (manual_backfill
                     (example_env (statuses []) (\<lambda>r b. []) no_data
                        (fixed_history [''r2'', ''r1'']))
                     ''r3'' ''Linux try test'' 2 False initial_session))
     = [Query_revisions_before_and_after ''hg/try'' ''r3'' 2 (- 1)]"
proof -
  let ?E = "example_env (statuses []) (\<lambda>r b. []) no_data (fixed_history [''r2'', ''r1''])"
  have url: "query_repo_url_from_buildername ?E ''Linux try test'' = Inr ''hg/try''"
    by (simp add: query_repo_url_from_buildername_def example_repo_name example_env_sel)
  have "history_requests initial_session = []"
    by (simp add: history_requests_def initial_session_def)
  then show ?thesis
    using manual_backfill_request [OF url, of "''r3''" 2 False initial_session] by simp
qed

text \<open>
  Claim C9 as stated fails: the revision history is asked for two revisions before the
  pivot \<open>r3\<close> with \<open>after = -1\<close>, not with one revision after the pivot, and no other
  request is sent.
\<close>

theorem manual_backfill_after_minus_one:
  "manual_backfill
     (example_env (statuses []) (\<lambda>r b. []) no_data (fixed_history [''r2'', ''r1'']))
     ''r3'' ''Linux try test'' 2 False initial_session
   = (Inl SyntaxError,
      \<lparr>sch_mgr = Map.empty, query_src = TreeherderApi,
       calls = [Query_revisions_before_and_after ''hg/try'' ''r3'' 2 (- 1)]\<rparr>)"
  by (simp add: session_eval backfill_eval)

end
